theory Spec2Isabelle
  imports Complex_Main "HOL-Library.Sublist" "HOL-Library.Multiset" "HOL-Library.Word"
begin

section \<open>Python strings\<close>

text \<open>
  A Python \<open>str\<close> is a sequence of Unicode code points; it is modelled as a list of
  natural numbers.  \<open>py\<close> turns an ASCII literal of the source into that form.
\<close>

type_synonym pystr = "nat list"

definition py :: "string \<Rightarrow> pystr" where
  "py s = map of_char s"

text \<open>
  \<open>str.isspace\<close> for a single code point: the characters \<open>str.split()\<close> and
  \<open>str.strip()\<close> treat as whitespace (CPython's \<open>_PyUnicode_IsWhitespace\<close>).
\<close>

definition is_space :: "nat \<Rightarrow> bool" where
  "is_space c \<longleftrightarrow>
     (9 \<le> c \<and> c \<le> 13) \<or> (28 \<le> c \<and> c \<le> 32) \<or> c = 133 \<or> c = 160 \<or> c = 5760 \<or>
     (8192 \<le> c \<and> c \<le> 8202) \<or> c = 8232 \<or> c = 8233 \<or> c = 8239 \<or> c = 8287 \<or> c = 12288"

text \<open>\<open>s.strip()\<close>: leading and trailing whitespace removed.\<close>

definition strip :: "pystr \<Rightarrow> pystr" where
  "strip s = rev (dropWhile is_space (rev (dropWhile is_space s)))"

text \<open>
  \<open>s.split()\<close> without arguments: the maximal runs of non-whitespace, in order.  The
  first argument is the word being scanned.
\<close>

fun split_from :: "pystr \<Rightarrow> pystr \<Rightarrow> pystr list" where
  "split_from w [] = (if w = [] then [] else [w])"
| "split_from w (c # cs) =
     (if is_space c then (if w = [] then split_from [] cs else w # split_from [] cs)
      else split_from (w @ [c]) cs)"

definition split_ws :: "pystr \<Rightarrow> pystr list" where
  "split_ws s = split_from [] s"

text \<open>\<open>sep.join(ws)\<close>.\<close>

fun str_join :: "'a list \<Rightarrow> 'a list list \<Rightarrow> 'a list" where
  "str_join sep [] = []"
| "str_join sep [w] = w"
| "str_join sep (w # v # ws) = w @ sep @ str_join sep (v # ws)"

text \<open>
  \<open>s.replace(old, new)\<close>: the occurrences of \<open>old\<close> are found from left to right
  without overlap and each is replaced by \<open>new\<close>.  For an empty \<open>old\<close> Python puts
  \<open>new\<close> before every character and at the end.
\<close>

function str_replace :: "'a list \<Rightarrow> 'a list \<Rightarrow> 'a list \<Rightarrow> 'a list" where
  "str_replace old new [] = (if old = [] then new else [])"
| "str_replace old new (c # cs) =
     (if old = [] then new @ concat (map (\<lambda>x. x # new) (c # cs))
      else if prefix old (c # cs) then new @ str_replace old new (drop (length old) (c # cs))
      else c # str_replace old new cs)"
  by pat_completeness auto
termination
  by (relation "measure (\<lambda>(old, new, s). length s)") auto

section \<open>The OCR text normalizer\<close>

text \<open>
  \<open>DocumentProcessor._clean_ocr_text\<close>.  The dictionary \<open>corrections\<close> is iterated in
  insertion order, so it is an association list.
\<close>

definition corrections :: "(pystr \<times> pystr) list" where
  "corrections =
     [(py ''gate'', py ''date''),
      (py ''Beneticiary'', py ''Beneficiary''),
      (py ''Bene:iciary'', py ''Beneficiary''),
      (py ''Bene ficiary'', py ''Beneficiary''),
      (py ''Arnount'', py ''Amount''),
      (py ''Am0unt'', py ''Amount''),
      (py ''Va|ue'', py ''Value''),
      (py ''V4lue'', py ''Value'')]"

definition apply_corrections :: "(pystr \<times> pystr) list \<Rightarrow> pystr \<Rightarrow> pystr" where
  "apply_corrections cs text = fold (\<lambda>(wrong, correct) cleaned. str_replace wrong correct cleaned) cs text"

text \<open>The body of \<open>_clean_ocr_text\<close>, with the dictionary as a parameter.\<close>

definition clean_with :: "(pystr \<times> pystr) list \<Rightarrow> pystr \<Rightarrow> pystr" where
  "clean_with cs text =
     (if text = [] then []
      else str_join (py '' '') (split_ws (apply_corrections cs text)))"

definition clean_ocr_text :: "pystr \<Rightarrow> pystr" where
  "clean_ocr_text text = clean_with corrections text"


section \<open>Extraction results and exceptions\<close>

text \<open>
  A Python exception that is an instance of \<open>Exception\<close>: its class name and the
  message \<open>str(e)\<close>.  A function that may raise returns \<open>exn + 'a\<close>, with \<open>Inl\<close> for
  the raised exception.
\<close>

datatype exn = Exn (exn_class: string) (exn_msg: pystr)

text \<open>The values stored under the format-specific keys of a result dictionary.\<close>

datatype pyval =
    PStr pystr
  | PInt int
  | PFloat rat
  | PList "pystr list"
  | PShape int int
  | PSheets "(pystr \<times> pystr list) list"
  | PObject nat
  | PNone

text \<open>
  The dictionary every extractor returns.  The keys the pipeline itself reads or writes
  are fields, \<open>None\<close> standing for an absent key; the remaining, format-specific
  keys are kept in \<open>metadata\<close> in insertion order.
\<close>

record result =
  content :: "pystr option"
  error :: "pystr option"
  tables :: "pystr list option"
  image_text :: "pystr list option"
  file_path :: "pystr option"
  file_type :: "pystr option"
  file_name :: "pystr option"
  metadata :: "(string \<times> pyval) list"

definition empty_result :: result where
  "empty_result =
     \<lparr>content = None, error = None, tables = None, image_text = None,
      file_path = None, file_type = None, file_name = None, metadata = []\<rparr>"

text \<open>\<open>{'content': '', 'error': str(e)}\<close>\<close>

definition error_result :: "pystr \<Rightarrow> result" where
  "error_result msg = empty_result\<lparr>content := Some [], error := Some msg\<rparr>"

text \<open>\<open>str(n)\<close> for a natural number.\<close>

function str_nat :: "nat \<Rightarrow> pystr" where
  "str_nat n = (if n < 10 then [48 + n] else str_nat (n div 10) @ [48 + n mod 10])"
  by pat_completeness auto
termination
  by (relation "measure id") auto

section \<open>IEEE 754 double precision\<close>

text \<open>
  Python's \<open>float\<close> is a binary64 number; \<open>/\<close> on two integers and \<open>*\<close> of an
  integer and a float return the exact result rounded to the nearest double, ties to
  even.  Finite doubles are modelled by the rationals they denote.  \<open>to_double\<close>
  rounds a rational in the normal range (all values here are far from overflow and
  underflow).
\<close>

definition pow2 :: "int \<Rightarrow> rat" where
  "pow2 e = (if 0 \<le> e then 2 ^ nat e else 1 / 2 ^ nat (- e))"

text \<open>The number of binary digits of a positive integer.\<close>

function bit_length :: "int \<Rightarrow> int" where
  "bit_length n = (if n \<le> 0 then 0 else 1 + bit_length (n div 2))"
  by pat_completeness auto
termination
  by (relation "measure nat") auto

text \<open>\<open>\<lfloor>log\<^sub>2 q\<rfloor>\<close> for a positive rational, the exponent of its binade.\<close>

definition ilog2 :: "rat \<Rightarrow> int" where
  "ilog2 q =
     (if 1 \<le> q then bit_length \<lfloor>q\<rfloor> - 1
      else - bit_length (\<lceil>1 / q\<rceil> - 1))"

definition round_half_even :: "rat \<Rightarrow> int" where
  "round_half_even q =
     (let f = \<lfloor>q\<rfloor>; r = q - of_int f
      in if r < 1 / 2 then f
         else if 1 / 2 < r then f + 1
         else if even f then f else f + 1)"

definition to_double :: "rat \<Rightarrow> rat" where
  "to_double q =
     (if q = 0 then 0
      else if q < 0 then - (let e = ilog2 (- q) - 52 in of_int (round_half_even (- q / pow2 e)) * pow2 e)
      else (let e = ilog2 q - 52 in of_int (round_half_even (q / pow2 e)) * pow2 e))"

definition fdiv :: "rat \<Rightarrow> rat \<Rightarrow> rat" where
  "fdiv a b = to_double (a / b)"

definition fmul :: "rat \<Rightarrow> rat \<Rightarrow> rat" where
  "fmul a b = to_double (a * b)"

section \<open>Image preprocessing: the resize step\<close>

text \<open>
  The resize step of \<open>DocumentProcessor._preprocess_image\<close>, on the shape
  \<open>(height, width)\<close> of the grayscale image:
  \<^verbatim>\<open>
  if height < 300 or width < 300:
      scale_factor = max(300/height, 300/width)
      new_height = int(height * scale_factor)
      new_width = int(width * scale_factor)
  \<close>
  The result is the shape of the image handed to the later stages.  \<open>int()\<close> truncates,
  which on the non-negative values here is the floor.
\<close>

definition resize_dims :: "int \<times> int \<Rightarrow> exn + int \<times> int" where
  "resize_dims shape =
     (let (height, width) = shape in
      if height < 300 \<or> width < 300 then
        if height = 0 \<or> width = 0 then Inl (Exn ''ZeroDivisionError'' (py ''division by zero''))
        else
          let scale_factor = max (fdiv 300 (of_int height)) (fdiv 300 (of_int width));
              new_height = \<lfloor>fmul (of_int height) scale_factor\<rfloor>;
              new_width = \<lfloor>fmul (of_int width) scale_factor\<rfloor>
          in Inr (new_height, new_width)
      else Inr (height, width))"

text \<open>
  The same step with exact arithmetic in place of doubles, for comparison.
\<close>

definition resize_dims_exact :: "int \<times> int \<Rightarrow> int \<times> int" where
  "resize_dims_exact shape =
     (let (height, width) = shape in
      if height < 300 \<or> width < 300 then
        let scale_factor = max (300 / of_int height) (300 / of_int width) :: rat
        in (\<lfloor>of_int height * scale_factor\<rfloor>, \<lfloor>of_int width * scale_factor\<rfloor>)
      else (height, width))"

section \<open>The multi-configuration OCR loop\<close>

text \<open>
  An image is its shape and an opaque handle for the pixels.  The libraries (OpenCV,
  Tesseract) are parameters: every call returns a value or raises.
\<close>

datatype image = Image (img_height: int) (img_width: int) (img_pixels: nat)

record ocr_lib =
  cv2_imread :: "pystr \<Rightarrow> exn + image option"
  cv2_imdecode :: "nat \<Rightarrow> exn + image option"
  cv2_stages :: "image \<Rightarrow> int \<times> int \<Rightarrow> exn + image"
  image_to_data :: "image \<Rightarrow> string \<Rightarrow> exn + int list"
  image_to_string :: "image \<Rightarrow> string \<Rightarrow> exn + pystr"

text \<open>
  \<open>_preprocess_image\<close>: the shape is decided by \<open>resize_dims\<close>; the pixel operations
  (grayscale, cubic resize to that shape, blur, CLAHE, closing, Otsu threshold) are the
  library's \<open>cv2_stages\<close>.
\<close>

definition preprocess_image :: "ocr_lib \<Rightarrow> image \<Rightarrow> exn + image" where
  "preprocess_image lib img =
     (case resize_dims (img_height img, img_width img) of
        Inl e \<Rightarrow> Inl e
      | Inr shape \<Rightarrow> cv2_stages lib img shape)"

definition ocr_configs :: "string list" where
  "ocr_configs =
     [''--oem 3 --psm 6'', ''--oem 3 --psm 8'', ''--oem 3 --psm 7'',
      ''--oem 3 --psm 11'', ''--oem 3 --psm 13'']"

text \<open>
  \<open>sum(confidences) / len(confidences) if confidences else 0\<close> over the positive
  entries of \<open>ocr_data['conf']\<close>.
\<close>

definition avg_confidence :: "int list \<Rightarrow> rat" where
  "avg_confidence confs =
     (let confidences = filter (\<lambda>c. 0 < c) confs
      in if confidences = [] then 0
         else fdiv (of_int (sum_list confidences)) (of_nat (length confidences)))"

text \<open>
  The body of the \<open>try\<close> inside the loop, up to the comparison: the candidate
  \<open>(text, avg_confidence)\<close> of one configuration, or the exception it raised.
  \<open>image_to_data\<close> stands for the call together with the \<open>int(conf)\<close> conversions.
\<close>

definition ocr_attempt :: "ocr_lib \<Rightarrow> image \<Rightarrow> string \<Rightarrow> exn + pystr \<times> rat" where
  "ocr_attempt lib img config =
     (case preprocess_image lib img of
        Inl e \<Rightarrow> Inl e
      | Inr processed_image \<Rightarrow>
          (case image_to_data lib processed_image config of
             Inl e \<Rightarrow> Inl e
           | Inr confs \<Rightarrow>
               (case image_to_string lib processed_image config of
                  Inl e \<Rightarrow> Inl e
                | Inr raw \<Rightarrow> Inr (strip raw, avg_confidence confs))))"

text \<open>One iteration: \<open>except Exception: continue\<close> keeps the current best.\<close>

fun keep_best :: "pystr \<times> rat \<Rightarrow> exn + pystr \<times> rat \<Rightarrow> pystr \<times> rat" where
  "keep_best (best_text, best_confidence) (Inl e) = (best_text, best_confidence)"
| "keep_best (best_text, best_confidence) (Inr (text, avg)) =
     (if avg > best_confidence \<and> length text > length best_text then (text, avg)
      else (best_text, best_confidence))"

text \<open>The loop, started from \<open>best_text = ""\<close>, \<open>best_confidence = 0\<close>.\<close>

definition ocr_loop :: "(exn + pystr \<times> rat) list \<Rightarrow> pystr \<times> rat" where
  "ocr_loop attempts = fold (\<lambda>a best. keep_best best a) attempts ([], 0)"

definition run_configs :: "ocr_lib \<Rightarrow> image \<Rightarrow> string list \<Rightarrow> pystr \<times> rat" where
  "run_configs lib img configs = ocr_loop (map (ocr_attempt lib img) configs)"

text \<open>
  The selection rule as the specification words it: the first configuration seeds the
  best attempt, and each later candidate replaces it when both its confidence and its
  text length are strictly greater.
\<close>

definition spec_select :: "(pystr \<times> rat) list \<Rightarrow> pystr \<times> rat" where
  "spec_select candidates =
     (case candidates of
        [] \<Rightarrow> ([], 0)
      | first # later \<Rightarrow> fold (\<lambda>c best. keep_best best (Inr c)) later first)"

text \<open>\<open>DocumentProcessor._process_image\<close>\<close>

definition process_image :: "ocr_lib \<Rightarrow> pystr \<Rightarrow> exn + result" where
  "process_image lib path =
     (case cv2_imread lib path of
        Inl e \<Rightarrow> Inr (error_result (exn_msg e))
      | Inr None \<Rightarrow> Inr (error_result (py ''Could not load image''))
      | Inr (Some img) \<Rightarrow>
          (let (best_text, best_confidence) = run_configs lib img ocr_configs;
               cleaned_text = clean_ocr_text best_text
           in Inr (empty_result
                \<lparr>content := Some cleaned_text,
                 metadata := [(''image_size'', PShape (img_height img) (img_width img)),
                              (''ocr_confidence'', PFloat best_confidence),
                              (''ocr_method'', PStr (py ''multi-config''))]\<rparr>)))"

text \<open>\<open>DocumentProcessor._process_image_data\<close>: never raises, returns \<open>""\<close> on failure.\<close>

definition process_image_data :: "ocr_lib \<Rightarrow> nat \<Rightarrow> pystr" where
  "process_image_data lib image_data =
     (case cv2_imdecode lib image_data of
        Inl e \<Rightarrow> []
      | Inr None \<Rightarrow> []
      | Inr (Some img) \<Rightarrow>
          (case preprocess_image lib img of
             Inl e \<Rightarrow> []
           | Inr processed_image \<Rightarrow>
               (case image_to_string lib processed_image ''--oem 3 --psm 6'' of
                  Inl e \<Rightarrow> []
                | Inr ocr_text \<Rightarrow> strip ocr_text)))"

section \<open>The plain-text extractor\<close>

text \<open>
  The codecs \<open>open(..., encoding=...)\<close> looks up by name.  A decoder returns the
  decoded code points, or \<open>None\<close> where Python raises \<open>UnicodeDecodeError\<close>.
  \<open>utf-8\<close> is the strict decoder (no overlong forms, no surrogates, nothing above
  U+10FFFF); \<open>latin-1\<close> and its alias \<open>iso-8859-1\<close> map every byte to the code point
  of the same value; \<open>cp1252\<close> has no character for five bytes.
\<close>

type_synonym byte = "8 word"

definition is_cont :: "nat \<Rightarrow> bool" where
  "is_cont b \<longleftrightarrow> 128 \<le> b \<and> b \<le> 191"

fun utf8_decode :: "nat list \<Rightarrow> pystr option" where
  "utf8_decode [] = Some []"
| "utf8_decode (b # bs) =
     (if b < 128 then map_option ((#) b) (utf8_decode bs)
      else if 194 \<le> b \<and> b \<le> 223 then
        (case bs of
           b1 # r \<Rightarrow>
             if is_cont b1 then map_option ((#) ((b - 192) * 64 + (b1 - 128))) (utf8_decode r)
             else None
         | _ \<Rightarrow> None)
      else if 224 \<le> b \<and> b \<le> 239 then
        (case bs of
           b1 # b2 # r \<Rightarrow>
             if (if b = 224 then 160 else 128) \<le> b1 \<and> b1 \<le> (if b = 237 then 159 else 191) \<and> is_cont b2
             then map_option ((#) ((b - 224) * 4096 + (b1 - 128) * 64 + (b2 - 128))) (utf8_decode r)
             else None
         | _ \<Rightarrow> None)
      else if 240 \<le> b \<and> b \<le> 244 then
        (case bs of
           b1 # b2 # b3 # r \<Rightarrow>
             if (if b = 240 then 144 else 128) \<le> b1 \<and> b1 \<le> (if b = 244 then 143 else 191) \<and> is_cont b2 \<and> is_cont b3
             then map_option ((#) ((b - 240) * 262144 + (b1 - 128) * 4096 + (b2 - 128) * 64 + (b3 - 128)))
                    (utf8_decode r)
             else None
         | _ \<Rightarrow> None)
      else None)"

definition cp1252_high :: "(nat \<times> nat) list" where
  "cp1252_high =
     [(128, 8364), (130, 8218), (131, 402), (132, 8222), (133, 8230), (134, 8224), (135, 8225),
      (136, 710), (137, 8240), (138, 352), (139, 8249), (140, 338), (142, 381),
      (145, 8216), (146, 8217), (147, 8220), (148, 8221), (149, 8226), (150, 8211), (151, 8212),
      (152, 732), (153, 8482), (154, 353), (155, 8250), (156, 339), (158, 382), (159, 376)]"

fun cp1252_decode :: "nat list \<Rightarrow> pystr option" where
  "cp1252_decode [] = Some []"
| "cp1252_decode (b # bs) =
     (if 128 \<le> b \<and> b \<le> 159 then
        (case map_of cp1252_high b of
           None \<Rightarrow> None
         | Some c \<Rightarrow> map_option ((#) c) (cp1252_decode bs))
      else map_option ((#) b) (cp1252_decode bs))"

definition py_decode :: "string \<Rightarrow> byte list \<Rightarrow> pystr option" where
  "py_decode encoding bs =
     (if encoding = ''utf-8'' then utf8_decode (map unat bs)
      else if encoding = ''latin-1'' \<or> encoding = ''iso-8859-1'' then Some (map unat bs)
      else if encoding = ''cp1252'' then cp1252_decode (map unat bs)
      else None)"

text \<open>
  Reading in text mode translates the line endings \<open>\r\n\<close> and \<open>\r\<close> to \<open>\n\<close>.
\<close>

fun universal_newlines :: "pystr \<Rightarrow> pystr" where
  "universal_newlines [] = []"
| "universal_newlines [c] = [if c = 13 then 10 else c]"
| "universal_newlines (c # d # r) =
     (if c = 13 \<and> d = 10 then 10 # universal_newlines r
      else if c = 13 then 10 # universal_newlines (d # r)
      else c # universal_newlines (d # r))"

text \<open>\<open>file.read()\<close> of a file opened with the given encoding.\<close>

definition read_text :: "(string \<Rightarrow> byte list \<Rightarrow> pystr option) \<Rightarrow> string \<Rightarrow> byte list \<Rightarrow> pystr option" where
  "read_text dec encoding bs = map_option universal_newlines (dec encoding bs)"

text \<open>\<open>len(content.split('\n'))\<close>\<close>

definition line_count :: "pystr \<Rightarrow> int" where
  "line_count content_str = int (count_list content_str 10) + 1"

definition txt_result :: "pystr \<Rightarrow> string option \<Rightarrow> result" where
  "txt_result content_str encoding_used =
     empty_result
       \<lparr>content := Some content_str,
        metadata := (case encoding_used of
                       None \<Rightarrow> []
                     | Some encoding \<Rightarrow> [(''encoding_used'', PStr (py encoding))])
                    @ [(''line_count'', PInt (line_count content_str))]\<rparr>"

text \<open>The loop of the \<open>except UnicodeDecodeError\<close> branch, with the statement after it.\<close>

fun try_encodings :: "(string \<Rightarrow> byte list \<Rightarrow> pystr option) \<Rightarrow> string list \<Rightarrow> byte list \<Rightarrow> result" where
  "try_encodings dec [] bs = error_result (py ''Could not decode file'')"
| "try_encodings dec (encoding # rest) bs =
     (case read_text dec encoding bs of
        Some content_str \<Rightarrow> txt_result content_str (Some encoding)
      | None \<Rightarrow> try_encodings dec rest bs)"

text \<open>
  \<open>DocumentProcessor._process_txt\<close>, with the codec table as a parameter.  The first
  argument is the outcome of opening the file: its bytes, or the \<open>OSError\<close> that
  \<open>open\<close> raised, which no handler of this function catches.
\<close>

definition process_txt_with ::
  "(string \<Rightarrow> byte list \<Rightarrow> pystr option) \<Rightarrow> exn + byte list \<Rightarrow> exn + result" where
  "process_txt_with dec file =
     (case file of
        Inl e \<Rightarrow> Inl e
      | Inr bs \<Rightarrow>
          (case read_text dec ''utf-8'' bs of
             Some content_str \<Rightarrow> Inr (txt_result content_str None)
           | None \<Rightarrow> Inr (try_encodings dec [''latin-1'', ''cp1252'', ''iso-8859-1''] bs)))"

definition process_txt :: "exn + byte list \<Rightarrow> exn + result" where
  "process_txt file = process_txt_with py_decode file"

section \<open>The other extractors\<close>

text \<open>
  What the parsing libraries hand to the extractors.  A word-processor document: its
  paragraph texts, its tables (rows of cell texts), and for every relationship whose
  target is an image the outcome of reading its blob.  A workbook: the sheets in order,
  a cell being \<open>None\<close> or its \<open>str()\<close>.  An e-mail: the headers and the parts with
  their content type and the outcome of \<open>get_content()\<close>.
\<close>

record docx_document =
  paragraphs :: "pystr list"
  doc_tables :: "pystr list list list"
  image_blobs :: "(exn + nat) list"

record email_message =
  subject :: pystr
  sender :: pystr
  recipient :: pystr
  date :: pystr
  is_multipart :: bool
  parts :: "(pystr \<times> (exn + pystr)) list"
  payload :: "exn + pystr"

record json_document =
  json_data :: nat
  json_dumps :: pystr
  json_keys :: "pystr list option"

record xml_document =
  xml_text :: pystr
  root_tag :: pystr
  element_count :: nat

record csv_frame =
  frame_string :: pystr
  columns :: "pystr list"
  row_count :: nat

record env =
  path_suffix :: "pystr \<Rightarrow> pystr"
  path_name :: "pystr \<Rightarrow> pystr"
  str_lower :: "pystr \<Rightarrow> pystr"
  ocr :: ocr_lib
  docx_Document :: "pystr \<Rightarrow> exn + docx_document"
  pdf_pages :: "pystr \<Rightarrow> exn + (exn + pystr) list"
  load_workbook :: "pystr \<Rightarrow> exn + (pystr \<times> pystr option list list) list"
  open_file :: "pystr \<Rightarrow> exn + byte list"
  message_from_bytes :: "pystr \<Rightarrow> exn + email_message"
  json_load :: "pystr \<Rightarrow> exn + json_document"
  xml_parse :: "pystr \<Rightarrow> exn + xml_document"
  read_csv :: "pystr \<Rightarrow> exn + csv_frame"

text \<open>
  The embedded-image loop of \<open>_process_docx\<close>: an exception ends the loop and is only
  logged; the texts collected so far are kept.
\<close>

fun embedded_image_text :: "ocr_lib \<Rightarrow> (exn + nat) list \<Rightarrow> pystr list" where
  "embedded_image_text lib [] = []"
| "embedded_image_text lib (Inl e # rels) = []"
| "embedded_image_text lib (Inr image_data # rels) =
     (let ocr_text = process_image_data lib image_data
      in (if ocr_text \<noteq> [] then [ocr_text] else []) @ embedded_image_text lib rels)"

definition table_rows :: "pystr list list \<Rightarrow> pystr list" where
  "table_rows rows =
     concat (map (\<lambda>row. let row_data = map strip row
                         in if list_ex (\<lambda>cell. cell \<noteq> []) row_data
                            then [str_join (py '' | '') row_data] else []) rows)"

text \<open>\<open>DocumentProcessor._process_docx\<close>\<close>

definition process_docx :: "env \<Rightarrow> pystr \<Rightarrow> exn + result" where
  "process_docx env path =
     (case docx_Document env path of
        Inl e \<Rightarrow> Inl e
      | Inr doc \<Rightarrow>
          (let text_content = filter (\<lambda>t. t \<noteq> []) (map strip (paragraphs doc));
               table_content = concat (map table_rows (doc_tables doc));
               image_texts = embedded_image_text (ocr env) (image_blobs doc)
           in Inr (empty_result
                \<lparr>content := Some (str_join [10] text_content),
                 tables := Some table_content,
                 image_text := Some image_texts,
                 metadata := [(''total_paragraphs'', PInt (int (length text_content))),
                              (''total_tables'', PInt (int (length (doc_tables doc))))]\<rparr>)))"

text \<open>The page loop of \<open>_process_pdf\<close>; \<open>Inl\<close> is a page whose extraction raised.\<close>

fun pdf_text_content :: "nat \<Rightarrow> (exn + pystr) list \<Rightarrow> exn + pystr list" where
  "pdf_text_content page_num [] = Inr []"
| "pdf_text_content page_num (Inl e # pages) = Inl e"
| "pdf_text_content page_num (Inr page_text # pages) =
     (case pdf_text_content (page_num + 1) pages of
        Inl e \<Rightarrow> Inl e
      | Inr rest \<Rightarrow>
          Inr ((if strip page_text \<noteq> []
                then py ''Page '' @ str_nat (page_num + 1) @ py '':'' @ [10] @ page_text
                else py ''Page '' @ str_nat (page_num + 1) @ py '': [OCR processing needed]'') # rest))"

text \<open>\<open>DocumentProcessor._process_pdf\<close>\<close>

definition process_pdf :: "env \<Rightarrow> pystr \<Rightarrow> exn + result" where
  "process_pdf env path =
     (case pdf_pages env path of
        Inl e \<Rightarrow> Inr (error_result (exn_msg e))
      | Inr pages \<Rightarrow>
          (case pdf_text_content 0 pages of
             Inl e \<Rightarrow> Inr (error_result (exn_msg e))
           | Inr text_content \<Rightarrow>
               Inr (empty_result
                 \<lparr>content := Some (str_join [10, 10] text_content),
                  metadata := [(''total_pages'', PInt (int (length pages)))]\<rparr>)))"

definition sheet_rows :: "pystr option list list \<Rightarrow> pystr list" where
  "sheet_rows rows =
     map (\<lambda>row. str_join (py '' | '') (map (\<lambda>cell. case cell of None \<Rightarrow> [] | Some s \<Rightarrow> s) row))
       (filter (\<lambda>row. list_ex (\<lambda>cell. cell \<noteq> None) row) rows)"

text \<open>\<open>DocumentProcessor._process_xlsx\<close>\<close>

definition process_xlsx :: "env \<Rightarrow> pystr \<Rightarrow> exn + result" where
  "process_xlsx env path =
     (case load_workbook env path of
        Inl e \<Rightarrow> Inl e
      | Inr sheets \<Rightarrow>
          (let sheets_content = map (\<lambda>(sheet_name, rows). (sheet_name, sheet_rows rows)) sheets;
               all_text = concat (map snd sheets_content)
           in Inr (empty_result
                \<lparr>content := Some (str_join [10] all_text),
                 metadata := [(''sheets'', PSheets sheets_content),
                              (''sheet_names'', PList (map fst sheets)),
                              (''total_sheets'', PInt (int (length sheets)))]\<rparr>)))"

text \<open>The body of an e-mail; a part or payload whose content cannot be read raises.\<close>

fun multipart_body :: "(pystr \<times> (exn + pystr)) list \<Rightarrow> exn + pystr" where
  "multipart_body [] = Inr []"
| "multipart_body ((content_type, part_content) # rest) =
     (if content_type = py ''text/plain'' then
        (case part_content of
           Inl e \<Rightarrow> Inl e
         | Inr t \<Rightarrow> (case multipart_body rest of Inl e \<Rightarrow> Inl e | Inr b \<Rightarrow> Inr (t @ b)))
      else multipart_body rest)"

text \<open>\<open>DocumentProcessor._process_eml\<close>\<close>

definition process_eml :: "env \<Rightarrow> pystr \<Rightarrow> exn + result" where
  "process_eml env path =
     (case message_from_bytes env path of
        Inl e \<Rightarrow> Inr (error_result (exn_msg e))
      | Inr msg \<Rightarrow>
          (case (if is_multipart msg then multipart_body (parts msg) else payload msg) of
             Inl e \<Rightarrow> Inr (error_result (exn_msg e))
           | Inr body \<Rightarrow>
               Inr (empty_result
                 \<lparr>content := Some (py ''Subject: '' @ subject msg @ [10] @ py ''From: '' @ sender msg @ [10]
                                    @ py ''To: '' @ recipient msg @ [10] @ py ''Date: '' @ date msg
                                    @ [10, 10] @ py ''Body:'' @ [10] @ body),
                  metadata := [(''subject'', PStr (subject msg)), (''sender'', PStr (sender msg)),
                               (''recipient'', PStr (recipient msg))]\<rparr>)))"

text \<open>\<open>DocumentProcessor._process_json\<close>\<close>

definition process_json :: "env \<Rightarrow> pystr \<Rightarrow> exn + result" where
  "process_json env path =
     (case json_load env path of
        Inl e \<Rightarrow> Inr (error_result (exn_msg e))
      | Inr doc \<Rightarrow>
          Inr (empty_result
            \<lparr>content := Some (json_dumps doc),
             metadata := [(''json_data'', PObject (json_data doc)),
                          (''keys'', case json_keys doc of None \<Rightarrow> PNone | Some ks \<Rightarrow> PList ks)]\<rparr>))"

text \<open>\<open>DocumentProcessor._process_xml\<close>\<close>

definition process_xml :: "env \<Rightarrow> pystr \<Rightarrow> exn + result" where
  "process_xml env path =
     (case xml_parse env path of
        Inl e \<Rightarrow> Inr (error_result (exn_msg e))
      | Inr doc \<Rightarrow>
          Inr (empty_result
            \<lparr>content := Some (xml_text doc),
             metadata := [(''root_tag'', PStr (root_tag doc)),
                          (''element_count'', PInt (int (element_count doc)))]\<rparr>))"

text \<open>\<open>DocumentProcessor._process_csv\<close>\<close>

definition process_csv :: "env \<Rightarrow> pystr \<Rightarrow> exn + result" where
  "process_csv env path =
     (case read_csv env path of
        Inl e \<Rightarrow> Inr (error_result (exn_msg e))
      | Inr df \<Rightarrow>
          Inr (empty_result
            \<lparr>content := Some (frame_string df),
             metadata := [(''columns'', PList (columns df)),
                          (''row_count'', PInt (int (row_count df))),
                          (''column_count'', PInt (int (length (columns df))))]\<rparr>))"

section \<open>The format dispatcher\<close>

text \<open>\<open>self.supported_formats\<close>: the extractor registered for an extension.\<close>

definition supported_formats :: "(pystr \<times> (env \<Rightarrow> pystr \<Rightarrow> exn + result)) list" where
  "supported_formats =
     [(py ''.docx'', process_docx),
      (py ''.pdf'', process_pdf),
      (py ''.xlsx'', process_xlsx),
      (py ''.png'', \<lambda>env. process_image (ocr env)),
      (py ''.jpg'', \<lambda>env. process_image (ocr env)),
      (py ''.jpeg'', \<lambda>env. process_image (ocr env)),
      (py ''.txt'', \<lambda>env path. process_txt (open_file env path)),
      (py ''.eml'', process_eml),
      (py ''.json'', process_json),
      (py ''.xml'', process_xml),
      (py ''.csv'', process_csv)]"

text \<open>\<open>Path(file_path).suffix.lower()\<close>\<close>

definition file_ext_of :: "env \<Rightarrow> pystr \<Rightarrow> pystr" where
  "file_ext_of env path = str_lower env (path_suffix env path)"

text \<open>The \<open>try\<close> block of \<open>DocumentProcessor.process_file\<close>.\<close>

definition process_file_try :: "env \<Rightarrow> pystr \<Rightarrow> exn + result" where
  "process_file_try env path =
     (let file_ext = file_ext_of env path in
      case map_of supported_formats file_ext of
        None \<Rightarrow> Inl (Exn ''ValueError'' (py ''Unsupported file format: '' @ file_ext))
      | Some extractor \<Rightarrow>
          (case extractor env path of
             Inl e \<Rightarrow> Inl e
           | Inr res \<Rightarrow>
               Inr (res\<lparr>file_path := Some path, file_type := Some file_ext,
                        file_name := Some (path_name env path)\<rparr>)))"

text \<open>
  \<open>DocumentProcessor.process_file\<close>: the \<open>try\<close> block under its
  \<open>except Exception\<close> handler.  \<open>Inl\<close> would be an exception reaching the caller.
  For a path that is a string the extension is computed before anything can raise, so
  the handler always finds \<open>file_ext\<close> bound and never records \<open>'unknown'\<close>.
\<close>

definition process_file :: "env \<Rightarrow> pystr \<Rightarrow> exn + result" where
  "process_file env path =
     (case process_file_try env path of
        Inr res \<Rightarrow> Inr res
      | Inl e \<Rightarrow>
          Inr (empty_result
            \<lparr>content := Some [], error := Some (exn_msg e),
             file_path := Some path, file_type := Some (file_ext_of env path)\<rparr>))"

section \<open>The content aggregator\<close>

text \<open>
  \<open>combine_extracted_content\<close> of the user interface.  \<open>content.get(key)\<close> is false
  for an absent key, an empty string and an empty list.
\<close>

definition has_text :: "pystr option \<Rightarrow> bool" where
  "has_text v = (case v of None \<Rightarrow> False | Some s \<Rightarrow> s \<noteq> [])"

definition has_rows :: "pystr list option \<Rightarrow> bool" where
  "has_rows v = (case v of None \<Rightarrow> False | Some rows \<Rightarrow> rows \<noteq> [])"

definition file_info :: "result \<Rightarrow> pystr" where
  "file_info c =
     [10] @ py ''--- Content from '' @ (case file_name c of None \<Rightarrow> py ''Unknown'' | Some n \<Rightarrow> n)
     @ py '' ---'' @ [10]"

text \<open>One iteration of the loop over \<open>content_list\<close>, on the list \<open>combined_text\<close>.\<close>

definition combine_step :: "pystr list \<Rightarrow> result \<Rightarrow> pystr list" where
  "combine_step combined_text c =
     (let t1 = (if has_text (content c) then combined_text @ [file_info c @ the (content c)]
                else combined_text);
          t2 = (if has_rows (tables c) then t1 @ [[10] @ py ''Tables:'' @ [10] @ str_join [10] (the (tables c))]
                else t1);
          t3 = (if has_rows (image_text c)
                then t2 @ [[10] @ py ''Image Text:'' @ [10] @ str_join [10] (the (image_text c))]
                else t2)
      in t3)"

definition combined_text_of :: "result list \<Rightarrow> pystr list" where
  "combined_text_of content_list = fold (\<lambda>c combined_text. combine_step combined_text c) content_list []"

definition combine_extracted_content :: "result list \<Rightarrow> pystr" where
  "combine_extracted_content content_list = str_join [10, 10] (combined_text_of content_list)"

text \<open>The blocks one entry contributes, each present or absent on its own.\<close>

definition content_block :: "result \<Rightarrow> pystr list" where
  "content_block c = (if has_text (content c) then [file_info c @ the (content c)] else [])"

definition tables_block :: "result \<Rightarrow> pystr list" where
  "tables_block c =
     (if has_rows (tables c) then [[10] @ py ''Tables:'' @ [10] @ str_join [10] (the (tables c))] else [])"

definition image_text_block :: "result \<Rightarrow> pystr list" where
  "image_text_block c =
     (if has_rows (image_text c) then [[10] @ py ''Image Text:'' @ [10] @ str_join [10] (the (image_text c))]
      else [])"

section \<open>Concrete inputs\<close>

text \<open>
  A concrete environment for the examples: POSIX path handling (\<open>PurePosixPath.name\<close>
  of a path without trailing slash, \<open>suffix\<close> as pathlib computes it from the name),
  lower-casing of ASCII letters, and libraries that find no file.
\<close>

definition posix_name :: "pystr \<Rightarrow> pystr" where
  "posix_name path = rev (takeWhile (\<lambda>c. c \<noteq> 47) (rev path))"

definition posix_suffix :: "pystr \<Rightarrow> pystr" where
  "posix_suffix path =
     (let name = posix_name path;
          tail = rev (takeWhile (\<lambda>c. c \<noteq> 46) (rev name))
      in if 46 \<in> set name \<and> length tail + 1 < length name \<and> tail \<noteq> [] then 46 # tail else [])"

definition ascii_lower :: "pystr \<Rightarrow> pystr" where
  "ascii_lower s = map (\<lambda>c. if 65 \<le> c \<and> c \<le> 90 then c + 32 else c) s"

definition not_found :: exn where
  "not_found = Exn ''FileNotFoundError'' (py ''No such file or directory'')"

definition no_ocr :: ocr_lib where
  "no_ocr =
     \<lparr>cv2_imread = (\<lambda>path. Inr None),
      cv2_imdecode = (\<lambda>blob. Inr None),
      cv2_stages = (\<lambda>img shape. Inr (Image (fst shape) (snd shape) (img_pixels img))),
      image_to_data = (\<lambda>img config. Inl (Exn ''TesseractNotFoundError'' (py ''tesseract is not installed''))),
      image_to_string = (\<lambda>img config. Inl (Exn ''TesseractNotFoundError'' (py ''tesseract is not installed'')))\<rparr>"

definition base_env :: env where
  "base_env =
     \<lparr>path_suffix = posix_suffix,
      path_name = posix_name,
      str_lower = ascii_lower,
      ocr = no_ocr,
      docx_Document = (\<lambda>path. Inl not_found),
      pdf_pages = (\<lambda>path. Inl not_found),
      load_workbook = (\<lambda>path. Inl not_found),
      open_file = (\<lambda>path. Inl not_found),
      message_from_bytes = (\<lambda>path. Inl not_found),
      json_load = (\<lambda>path. Inl not_found),
      xml_parse = (\<lambda>path. Inl not_found),
      read_csv = (\<lambda>path. Inl not_found)\<rparr>"

text \<open>A scanned image that loads, on a machine where every Tesseract call fails.\<close>

definition failing_ocr_env :: env where
  "failing_ocr_env = base_env\<lparr>ocr := no_ocr\<lparr>cv2_imread := (\<lambda>path. Inr (Some (Image 100 200 0)))\<rparr>\<rparr>"

text \<open>
  An OCR engine whose first configuration reads a long text without any positive token
  confidence, while the other configurations read a short text with confidence 90.
\<close>

definition demo_ocr :: ocr_lib where
  "demo_ocr =
     no_ocr
       \<lparr>image_to_data := (\<lambda>img config. if config = ''--oem 3 --psm 6'' then Inr [- 1, 0] else Inr [- 1, 90]),
        image_to_string := (\<lambda>img config. if config = ''--oem 3 --psm 6'' then Inr (py ''Invoice No'' @ [10])
                                           else Inr (py ''Inv''))\<rparr>"

definition demo_image :: image where
  "demo_image = Image 400 600 0"

text \<open>The successful candidates of a run, in configuration order, and the specified choice among them.\<close>

definition candidates_of :: "ocr_lib \<Rightarrow> image \<Rightarrow> string list \<Rightarrow> (pystr \<times> rat) list" where
  "candidates_of lib img configs =
     concat (map (\<lambda>config. case ocr_attempt lib img config of Inl e \<Rightarrow> [] | Inr c \<Rightarrow> [c]) configs)"

definition spec_run :: "ocr_lib \<Rightarrow> image \<Rightarrow> string list \<Rightarrow> pystr \<times> rat" where
  "spec_run lib img configs = spec_select (candidates_of lib img configs)"

text \<open>A word-processor document that holds one 2\<times>2 table and no paragraph.\<close>

definition table_only_document :: docx_document where
  "table_only_document =
     \<lparr>paragraphs = [], doc_tables = [[[py ''A'', py ''B''], [py ''C'', py ''D'']]], image_blobs = []\<rparr>"

definition table_only_env :: env where
  "table_only_env = base_env\<lparr>docx_Document := (\<lambda>path. Inr table_only_document)\<rparr>"

definition table_only_result :: result where
  "table_only_result =
     \<lparr>content = Some [], error = None,
      tables = Some [py ''A | B'', py ''C | D''], image_text = Some [],
      file_path = Some (py ''rates.docx''), file_type = Some (py ''.docx''),
      file_name = Some (py ''rates.docx''),
      metadata = [(''total_paragraphs'', PInt 0), (''total_tables'', PInt 1)]\<rparr>"

text \<open>The bytes of \<open>caf\'e\<close> in latin-1.\<close>

definition cafe_latin1 :: "byte list" where
  "cafe_latin1 = [99, 97, 102, 233]"

section \<open>Conditions for commuting replacements\<close>

text \<open>
  Two strings are comparable when one is a prefix of the other.  \<open>noclash x k\<close>: at no
  position of \<open>x\<close> can an occurrence of \<open>k\<close> begin, whatever text follows \<open>x\<close>.
\<close>

definition comparable :: "'a list \<Rightarrow> 'a list \<Rightarrow> bool" where
  "comparable a b \<longleftrightarrow> prefix a b \<or> prefix b a"

fun noclash :: "'a list \<Rightarrow> 'a list \<Rightarrow> bool" where
  "noclash [] k = True"
| "noclash (c # cs) k = (\<not> comparable (c # cs) k \<and> noclash cs k)"

text \<open>
  Two corrections neither of whose keys overlaps the other's key or replacement.
\<close>

definition compat :: "'a list \<times> 'a list \<Rightarrow> 'a list \<times> 'a list \<Rightarrow> bool" where
  "compat p q \<longleftrightarrow>
     fst p \<noteq> [] \<and> fst q \<noteq> [] \<and>
     noclash (fst p) (fst q) \<and> noclash (fst q) (fst p) \<and>
     noclash (fst p) (snd q) \<and> noclash (fst q) (snd p) \<and>
     noclash (snd p) (fst q) \<and> noclash (snd q) (fst p)"

definition pairwise_compat :: "('a list \<times> 'a list) list \<Rightarrow> bool" where
  "pairwise_compat cs = list_all (\<lambda>p. list_all (\<lambda>q. p = q \<or> compat p q) cs) cs"

text \<open>A correction whose replacement cannot bring its own key back.\<close>

definition self_ok :: "'a list \<times> 'a list \<Rightarrow> bool" where
  "self_ok p \<longleftrightarrow>
     fst p \<noteq> [] \<and> noclash (tl (fst p)) (fst p) \<and> noclash (tl (fst p)) (snd p) \<and> noclash (snd p) (fst p)"

text \<open>Whitespace collapsing, the last step of \<open>_clean_ocr_text\<close>.\<close>

definition collapse :: "pystr \<Rightarrow> pystr" where
  "collapse s = str_join (py '' '') (split_ws s)"

text \<open>
  What holds of every result an extractor returns: \<open>content\<close> is present, and a result
  that carries an \<open>error\<close> has empty content.
\<close>

definition result_ok :: "result \<Rightarrow> bool" where
  "result_ok r \<longleftrightarrow> content r \<noteq> None \<and> (error r \<noteq> None \<longrightarrow> content r = Some [])"

section \<open>Properties of the text normalizer\<close>

subsection \<open>Replacements that do not overlap commute\<close>

lemma prefix_append_comparable: "prefix k (x @ t) \<Longrightarrow> comparable x k"
  by (auto simp: comparable_def prefix_append)

lemma str_replace_hit:
  "k \<noteq> [] \<Longrightarrow> str_replace k n (k @ t) = n @ str_replace k n t"
  by (cases k) auto

lemma str_replace_miss:
  "k \<noteq> [] \<Longrightarrow> \<not> prefix k (c # cs) \<Longrightarrow> str_replace k n (c # cs) = c # str_replace k n cs"
  by simp

lemma str_replace_skip:
  "k \<noteq> [] \<Longrightarrow> noclash x k \<Longrightarrow> str_replace k n (x @ t) = x @ str_replace k n t"
proof (induction x)
  case Nil
  then show ?case by simp
next
  case (Cons c x)
  from Cons.prems have "\<not> prefix k ((c # x) @ t)"
    using prefix_append_comparable [of k "c # x" t] by auto
  with Cons show ?case by simp
qed

lemma prefix_str_replace:
  "k2 \<noteq> [] \<Longrightarrow> noclash k k2 \<Longrightarrow> noclash k n2 \<Longrightarrow>
   prefix k (str_replace k2 n2 s) \<longleftrightarrow> prefix k s"
proof (induction k2 n2 s arbitrary: k rule: str_replace.induct)
  case (1 old new)
  then show ?case by simp
next
  case (2 old new c cs)
  show ?case
  proof (cases k)
    case Nil
    then show ?thesis by simp
  next
    case (Cons a k')
    show ?thesis
    proof (cases "prefix old (c # cs)")
      case True
      have "\<not> prefix k (new @ str_replace old new (drop (length old) (c # cs)))"
        using prefix_append_comparable [of k new] "2.prems"(3) Cons by (auto simp: comparable_def)
      moreover have "\<not> prefix k (c # cs)"
        using prefix_same_cases [of k "c # cs" old] True "2.prems"(2) Cons
        by (auto simp: comparable_def)
      ultimately show ?thesis using True "2.prems"(1) by simp
    next
      case False
      have "prefix k' (str_replace old new cs) \<longleftrightarrow> prefix k' cs"
        using "2.IH"(2) [of k'] False "2.prems" Cons by simp
      then show ?thesis using False "2.prems"(1) Cons by simp
    qed
  qed
qed

lemma str_replace_commute:
  assumes "compat (k1, n1) (k2, n2)"
  shows "str_replace k1 n1 (str_replace k2 n2 s) = str_replace k2 n2 (str_replace k1 n1 s)"
proof (induction s rule: length_induct)
  case (1 s)
  from assms have ne: "k1 \<noteq> []" "k2 \<noteq> []"
    and kk: "noclash k1 k2" "noclash k2 k1"
    and kn: "noclash k1 n2" "noclash k2 n1"
    and nk: "noclash n1 k2" "noclash n2 k1"
    by (simp_all add: compat_def)
  show ?case
  proof (cases s)
    case Nil
    with ne show ?thesis by simp
  next
    case (Cons c cs)
    consider (a) "prefix k1 s" | (b) "prefix k2 s" | (c) "\<not> prefix k1 s" "\<not> prefix k2 s"
      by blast
    then show ?thesis
    proof cases
      case a
      then obtain r where s: "s = k1 @ r" by (auto simp: prefix_def)
      with ne have len: "length r < length s" by simp
      have "str_replace k1 n1 (str_replace k2 n2 s) = n1 @ str_replace k1 n1 (str_replace k2 n2 r)"
        by (simp add: s str_replace_skip [OF ne(2) kk(1)] str_replace_hit [OF ne(1)])
      moreover have "str_replace k2 n2 (str_replace k1 n1 s) = n1 @ str_replace k2 n2 (str_replace k1 n1 r)"
        by (simp add: s str_replace_skip [OF ne(2) nk(1)] str_replace_hit [OF ne(1)])
      ultimately show ?thesis using 1 len by simp
    next
      case b
      then obtain r where s: "s = k2 @ r" by (auto simp: prefix_def)
      with ne have len: "length r < length s" by simp
      have "str_replace k2 n2 (str_replace k1 n1 s) = n2 @ str_replace k2 n2 (str_replace k1 n1 r)"
        by (simp add: s str_replace_skip [OF ne(1) kk(2)] str_replace_hit [OF ne(2)])
      moreover have "str_replace k1 n1 (str_replace k2 n2 s) = n2 @ str_replace k1 n1 (str_replace k2 n2 r)"
        by (simp add: s str_replace_skip [OF ne(1) nk(2)] str_replace_hit [OF ne(2)])
      ultimately show ?thesis using 1 len by simp
    next
      case c
      have r2: "str_replace k2 n2 s = c # str_replace k2 n2 cs"
        using c ne Cons by simp
      have r1: "str_replace k1 n1 s = c # str_replace k1 n1 cs"
        using c ne Cons by simp
      have "\<not> prefix k1 (str_replace k2 n2 s)"
        using prefix_str_replace [OF ne(2) kk(1) kn(1)] c by simp
      then have "str_replace k1 n1 (str_replace k2 n2 s) = c # str_replace k1 n1 (str_replace k2 n2 cs)"
        using r2 ne by simp
      moreover have "\<not> prefix k2 (str_replace k1 n1 s)"
        using prefix_str_replace [OF ne(1) kk(2) kn(2)] c by simp
      then have "str_replace k2 n2 (str_replace k1 n1 s) = c # str_replace k2 n2 (str_replace k1 n1 cs)"
        using r1 ne by simp
      ultimately show ?thesis using 1 Cons by simp
    qed
  qed
qed

lemma corrections_numerals:
  "corrections =
     [([103, 97, 116, 101], [100, 97, 116, 101]),
      ([66, 101, 110, 101, 116, 105, 99, 105, 97, 114, 121], [66, 101, 110, 101, 102, 105, 99, 105, 97, 114, 121]),
      ([66, 101, 110, 101, 58, 105, 99, 105, 97, 114, 121], [66, 101, 110, 101, 102, 105, 99, 105, 97, 114, 121]),
      ([66, 101, 110, 101, 32, 102, 105, 99, 105, 97, 114, 121], [66, 101, 110, 101, 102, 105, 99, 105, 97, 114, 121]),
      ([65, 114, 110, 111, 117, 110, 116], [65, 109, 111, 117, 110, 116]),
      ([65, 109, 48, 117, 110, 116], [65, 109, 111, 117, 110, 116]),
      ([86, 97, 124, 117, 101], [86, 97, 108, 117, 101]),
      ([86, 52, 108, 117, 101], [86, 97, 108, 117, 101])]"
  by (simp add: corrections_def py_def)

lemma corrections_compat: "pairwise_compat corrections"
  by (simp add: corrections_numerals pairwise_compat_def compat_def comparable_def)

lemma apply_corrections_permuted:
  assumes "pairwise_compat cs" "mset ps = mset cs"
  shows "apply_corrections ps t = apply_corrections cs t"
proof -
  have "fold (\<lambda>(wrong, correct) cleaned. str_replace wrong correct cleaned) cs
      = fold (\<lambda>(wrong, correct) cleaned. str_replace wrong correct cleaned) ps"
  proof (rule fold_multiset_equiv)
    fix x y assume "x \<in> set cs" "y \<in> set cs"
    with assms(1) have "x = y \<or> compat x y"
      by (auto simp: pairwise_compat_def list_all_iff)
    then show "(case x of (wrong, correct) \<Rightarrow> str_replace wrong correct) \<circ> (case y of (wrong, correct) \<Rightarrow> str_replace wrong correct)
       = (case y of (wrong, correct) \<Rightarrow> str_replace wrong correct) \<circ> (case x of (wrong, correct) \<Rightarrow> str_replace wrong correct)"
      by (cases x; cases y) (auto simp: fun_eq_iff intro: str_replace_commute)
  next
    show "mset cs = mset ps" using assms(2) by simp
  qed
  then show ?thesis by (simp add: apply_corrections_def)
qed


text \<open>
  C8.  The corrections of the normalizer can be applied in any order: for every
  permutation of the dictionary and every text, the cleaned text is the one the
  dictionary order gives.  (No key overlaps another key or another replacement:
  \<open>corrections_compat\<close>.)
\<close>

theorem corrections_order_independent:
  assumes "mset ps = mset corrections"
  shows "clean_with ps t = clean_ocr_text t"
  using apply_corrections_permuted [OF corrections_compat assms]
  by (simp add: clean_ocr_text_def clean_with_def)

theorem corrections_order_independent_witness:
  "mset (rev corrections) = mset corrections \<and>
   clean_with (rev corrections) (py ''Va|ue  of Arnount gate'') = clean_ocr_text (py ''Va|ue  of Arnount gate'')"
  using corrections_order_independent [of "rev corrections" "py ''Va|ue  of Arnount gate''"]
  by simp

subsection \<open>Cleaning twice\<close>

lemma sublist_skip:
  "k \<noteq> [] \<Longrightarrow> noclash x k \<Longrightarrow> sublist k (x @ t) \<longleftrightarrow> sublist k t"
proof (induction x)
  case Nil
  then show ?case by simp
next
  case (Cons c x)
  from Cons.prems have "\<not> prefix k ((c # x) @ t)"
    using prefix_append_comparable [of k "c # x" t] by auto
  with Cons show ?case by (simp add: sublist_Cons_right)
qed

lemma str_replace_removes:
  assumes "self_ok (k, n)"
  shows "\<not> sublist k (str_replace k n s)"
proof (induction s rule: length_induct)
  case (1 s)
  from assms have ne: "k \<noteq> []" and tk: "noclash (tl k) k" and tn: "noclash (tl k) n" and nk: "noclash n k"
    by (simp_all add: self_ok_def)
  show ?case
  proof (cases s)
    case Nil
    with ne show ?thesis by simp
  next
    case (Cons c cs)
    show ?thesis
    proof (cases "prefix k s")
      case True
      then obtain r where s: "s = k @ r" by (auto simp: prefix_def)
      with ne have "length r < length s" by simp
      with 1 have "\<not> sublist k (str_replace k n r)" by simp
      then show ?thesis by (simp add: s str_replace_hit [OF ne] sublist_skip [OF ne nk])
    next
      case False
      have r: "str_replace k n s = c # str_replace k n cs" using False ne Cons by simp
      obtain a k' where k: "k = a # k'" using ne by (cases k) auto
      have "prefix k' (str_replace k n cs) \<longleftrightarrow> prefix k' cs"
        using prefix_str_replace [OF ne, of k' n cs] tk tn k by simp
      then have "\<not> prefix k (c # str_replace k n cs)" using False Cons k by simp
      moreover have "\<not> sublist k (str_replace k n cs)" using 1 Cons by simp
      ultimately show ?thesis by (simp add: r sublist_Cons_right)
    qed
  qed
qed

lemma str_replace_keeps_absent:
  assumes "compat (k1, n1) (k2, n2)" "\<not> sublist k1 s"
  shows "\<not> sublist k1 (str_replace k2 n2 s)"
  using assms(2)
proof (induction s rule: length_induct)
  case (1 s)
  from assms(1) have ne: "k1 \<noteq> []" "k2 \<noteq> []"
    and kk: "noclash k1 k2" and kn: "noclash k1 n2" and nk: "noclash n2 k1"
    by (simp_all add: compat_def)
  show ?case
  proof (cases s)
    case Nil
    with ne show ?thesis by simp
  next
    case (Cons c cs)
    show ?thesis
    proof (cases "prefix k2 s")
      case True
      then obtain r where s: "s = k2 @ r" by (auto simp: prefix_def)
      with ne have len: "length r < length s" by simp
      have "\<not> sublist k1 r" using "1.prems" s by (auto simp: sublist_append)
      with 1 len have "\<not> sublist k1 (str_replace k2 n2 r)" by simp
      then show ?thesis by (simp add: s str_replace_hit [OF ne(2)] sublist_skip [OF ne(1) nk])
    next
      case False
      have r: "str_replace k2 n2 s = c # str_replace k2 n2 cs" using False ne Cons by simp
      have "\<not> prefix k1 s" using "1.prems" by (auto simp: prefix_imp_sublist)
      then have "\<not> prefix k1 (str_replace k2 n2 s)"
        using prefix_str_replace [OF ne(2) kk kn] by simp
      moreover have "\<not> sublist k1 cs" using "1.prems" Cons by (simp add: sublist_Cons_right)
      then have "\<not> sublist k1 (str_replace k2 n2 cs)" using 1 Cons by simp
      ultimately show ?thesis using r by (simp add: sublist_Cons_right)
    qed
  qed
qed

lemma str_replace_absent:
  "k \<noteq> [] \<Longrightarrow> \<not> sublist k s \<Longrightarrow> str_replace k n s = s"
proof (induction s)
  case Nil
  then show ?case by simp
next
  case (Cons c s)
  then show ?case by (simp add: sublist_Cons_right)
qed

lemma apply_corrections_snoc:
  "apply_corrections (cs @ [(k, n)]) t = str_replace k n (apply_corrections cs t)"
  by (simp add: apply_corrections_def)

lemma pairwise_compat_butlast:
  "pairwise_compat (cs @ [p]) \<Longrightarrow> pairwise_compat cs"
  by (auto simp: pairwise_compat_def list_all_iff)

lemma apply_corrections_removes:
  "pairwise_compat cs \<Longrightarrow> list_all self_ok cs \<Longrightarrow> (k, n) \<in> set cs \<Longrightarrow>
   \<not> sublist k (apply_corrections cs t)"
proof (induction cs rule: rev_induct)
  case Nil
  then show ?case by simp
next
  case (snoc p cs)
  obtain k' n' where p: "p = (k', n')" by (cases p)
  show ?case
  proof (cases "(k, n) = p")
    case True
    then show ?thesis
      using snoc.prems(2) str_replace_removes [of k n] by (simp add: p apply_corrections_snoc)
  next
    case False
    with snoc.prems have mem: "(k, n) \<in> set cs" by simp
    have "\<not> sublist k (apply_corrections cs t)"
      using snoc.IH [OF pairwise_compat_butlast [OF snoc.prems(1)]] snoc.prems(2) mem by simp
    moreover have "compat (k, n) (k', n')"
      using snoc.prems(1) mem False p by (auto simp: pairwise_compat_def list_all_iff)
    ultimately show ?thesis
      using str_replace_keeps_absent by (simp add: p apply_corrections_snoc)
  qed
qed

lemma apply_corrections_absent:
  "\<forall>(k, n) \<in> set cs. k \<noteq> [] \<and> \<not> sublist k t \<Longrightarrow> apply_corrections cs t = t"
  unfolding apply_corrections_def
  by (induction cs) (auto simp: str_replace_absent)

lemma split_from_words:
  "v \<in> set (split_from w s) \<Longrightarrow> \<forall>c \<in> set w. \<not> is_space c \<Longrightarrow>
   v \<noteq> [] \<and> (\<forall>c \<in> set v. \<not> is_space c)"
proof (induction w s rule: split_from.induct)
  case (1 w)
  then show ?case by (cases "w = []") simp_all
next
  case (2 w c cs)
  show ?case
  proof (cases "is_space c")
    case sp: True
    show ?thesis
    proof (cases "w = []")
      case True
      with sp "2.prems" have "v \<in> set (split_from [] cs)" by simp
      with "2.IH"(1) [OF sp True] show ?thesis by simp
    next
      case False
      with sp "2.prems"(1) have "v = w \<or> v \<in> set (split_from [] cs)" by simp
      then show ?thesis
      proof
        assume "v = w"
        with False "2.prems"(2) show ?thesis by simp
      next
        assume "v \<in> set (split_from [] cs)"
        with "2.IH"(2) [OF sp False] show ?thesis by simp
      qed
    qed
  next
    case False
    with "2.prems" have "v \<in> set (split_from (w @ [c]) cs)" by simp
    moreover have "\<forall>x \<in> set (w @ [c]). \<not> is_space x" using False "2.prems"(2) by simp
    ultimately show ?thesis using "2.IH"(3) [OF False] by blast
  qed
qed

lemma split_from_sublist:
  "v \<in> set (split_from w s) \<Longrightarrow> sublist v (w @ s)"
proof (induction w s rule: split_from.induct)
  case (1 w)
  then show ?case by (auto split: if_splits)
next
  case (2 w c cs)
  show ?case
  proof (cases "is_space c")
    case True
    then have "v = w \<or> v \<in> set (split_from [] cs)" using "2.prems" by (auto split: if_splits)
    then show ?thesis
    proof
      assume "v = w" then show ?thesis by simp
    next
      assume "v \<in> set (split_from [] cs)"
      then have "sublist v cs" using 2 True by (auto split: if_splits)
      then have "sublist v (c # cs)" by (simp add: sublist_Cons_right)
      then show ?thesis by (simp add: sublist_append)
    qed
  next
    case False
    then show ?thesis using 2 by simp
  qed
qed

lemma split_from_word:
  "\<forall>c \<in> set u. \<not> is_space c \<Longrightarrow> split_from w (u @ r) = split_from (w @ u) r"
proof (induction u arbitrary: w)
  case Nil
  then show ?case by simp
next
  case (Cons a u)
  then have "split_from w ((a # u) @ r) = split_from (w @ [a]) (u @ r)" by simp
  also have "\<dots> = split_from ((w @ [a]) @ u) r" using Cons by simp
  finally show ?case by simp
qed

lemma split_ws_join:
  "\<forall>w \<in> set ws. w \<noteq> [] \<and> (\<forall>c \<in> set w. \<not> is_space c) \<Longrightarrow>
   split_from [] (str_join [32] ws) = ws"
proof (induction "[32::nat]" ws rule: str_join.induct)
  case 1
  then show ?case by simp
next
  case (2 w)
  then show ?case using split_from_word [of w "[]" "[]"] by simp
next
  case (3 w v ws)
  have "split_from [] (w @ [32] @ str_join [32] (v # ws)) = split_from w ([32] @ str_join [32] (v # ws))"
    using split_from_word [of w "[]"] 3 by simp
  also have "\<dots> = w # split_from [] (str_join [32] (v # ws))"
    using 3 by (simp add: is_space_def)
  finally show ?case using 3 by simp
qed

lemma sublist_join:
  "k \<noteq> [] \<Longrightarrow> (32::nat) \<notin> set k \<Longrightarrow> sublist k (str_join [32] ws) \<Longrightarrow> \<exists>w \<in> set ws. sublist k w"
proof (induction "[32::nat]" ws rule: str_join.induct)
  case 1
  then show ?case by simp
next
  case (2 w)
  then show ?case by simp
next
  case (3 w v ws)
  from "3.prems"(3) have "sublist k (w @ 32 # str_join [32] (v # ws))" by simp
  then consider (a) "sublist k w" | (b) "sublist k (32 # str_join [32] (v # ws))"
    | (c) k1 k2 where "k = k1 @ k2" "suffix k1 w" "prefix k2 (32 # str_join [32] (v # ws))"
    unfolding sublist_append by blast
  then show ?case
  proof cases
    case a
    then show ?thesis by simp
  next
    case b
    then have "sublist k (str_join [32] (v # ws))"
      using "3.prems"(1,2) by (cases k) (auto simp: sublist_Cons_right)
    then show ?thesis using 3 by auto
  next
    case c
    then have "k2 = []" using "3.prems"(2) by (cases k2) auto
    with c have "sublist k w" by (simp add: suffix_imp_sublist)
    then show ?thesis by simp
  qed
qed

lemma py_space: "py '' '' = [32]" by (simp add: py_def)

lemma collapse_idem: "collapse (collapse s) = collapse s"
proof -
  have "w \<noteq> [] \<and> (\<forall>c \<in> set w. \<not> is_space c)" if "w \<in> set (split_from [] s)" for w
    using split_from_words [OF that] by simp
  then have "split_from [] (str_join [32] (split_from [] s)) = split_from [] s"
    by (intro split_ws_join) blast
  then show ?thesis by (simp add: collapse_def split_ws_def py_space)
qed

lemma corrections_self_ok: "list_all self_ok corrections"
  by (simp add: corrections_numerals self_ok_def comparable_def)

lemma corrections_keys:
  "\<forall>(k, n) \<in> set corrections. k \<noteq> [] \<and> (k = py ''Bene ficiary'' \<or> 32 \<notin> set k)"
  by (simp add: corrections_numerals py_def)


text \<open>
  C10, as stated, fails: collapsing the two spaces of \<open>"Bene  ficiary"\<close> creates the
  key \<open>"Bene ficiary"\<close>, which only a second cleaning replaces.
\<close>

theorem clean_not_idempotent:
  "clean_ocr_text (clean_ocr_text (py ''Bene  ficiary'')) \<noteq> clean_ocr_text (py ''Bene  ficiary'')"
  by (simp add: clean_ocr_text_def clean_with_def py_def corrections_def apply_corrections_def
      split_ws_def is_space_def)

text \<open>
  C10, amended.  Cleaning is idempotent on every text whose cleaned form does not
  contain the key \<open>"Bene ficiary"\<close>: then \<open>clean(clean(t)) = clean(t)\<close>.
\<close>

theorem clean_idempotent_without_split_key:
  assumes "\<not> sublist (py ''Bene ficiary'') (clean_ocr_text t)"
  shows "clean_ocr_text (clean_ocr_text t) = clean_ocr_text t"
proof (cases "t = [] \<or> clean_ocr_text t = []")
  case True
  then show ?thesis by (auto simp: clean_ocr_text_def clean_with_def)
next
  case False
  define u where "u = apply_corrections corrections t"
  define v where "v = clean_ocr_text t"
  have v: "v = str_join [32] (split_from [] u)"
    using False by (simp add: v_def u_def clean_ocr_text_def clean_with_def py_space split_ws_def)
  have absent: "\<not> sublist k v" if kn: "(k, n) \<in> set corrections" for k n
  proof (cases "k = py ''Bene ficiary''")
    case True
    then show ?thesis using assms v_def by simp
  next
    case False
    with kn corrections_keys have k: "k \<noteq> []" "32 \<notin> set k" by auto
    show ?thesis
    proof
      assume "sublist k v"
      then obtain w where w: "w \<in> set (split_from [] u)" "sublist k w"
        using sublist_join [OF k] v by blast
      then have "sublist k u"
        using split_from_sublist [of w "[]" u] sublist_order.order_trans by auto
      then show False
        using apply_corrections_removes [OF corrections_compat corrections_self_ok kn] u_def by simp
    qed
  qed
  have vne: "v \<noteq> []" using False v_def by simp
  have fix1: "apply_corrections corrections v = v"
    using absent corrections_keys by (intro apply_corrections_absent) auto
  have fix2: "str_join [32] (split_from [] v) = v"
    using collapse_idem [of u] v by (simp add: collapse_def split_ws_def py_space)
  have "clean_ocr_text v = str_join [32] (split_from [] (apply_corrections corrections v))"
    using vne by (simp add: clean_ocr_text_def clean_with_def py_space split_ws_def)
  then have "clean_ocr_text v = v" by (simp only: fix1 fix2)
  then show ?thesis by (simp only: v_def)
qed


theorem clean_idempotent_without_split_key_witness:
  "\<not> sublist (py ''Bene ficiary'') (clean_ocr_text (py ''Am0unt  gate'')) \<and>
   clean_ocr_text (clean_ocr_text (py ''Am0unt  gate'')) = clean_ocr_text (py ''Am0unt  gate'')"
proof -
  have v: "clean_ocr_text (py ''Am0unt  gate'') = py ''Amount date''"
    by (simp add: clean_ocr_text_def clean_with_def py_def corrections_def apply_corrections_def
        split_ws_def is_space_def)
  have h: "\<not> sublist (py ''Bene ficiary'') (py ''Amount date'')"
    by (simp add: py_def sublist_code)
  show ?thesis
    using clean_idempotent_without_split_key [of "py ''Am0unt  gate''"] h by (simp add: v)
qed

section \<open>The resize step\<close>

lemma floor_rat_numeral: "\<lfloor>numeral a / numeral b :: rat\<rfloor> = numeral a div numeral b"
  using floor_divide_of_int_eq [of "numeral a" "numeral b", where ?'a = rat] by simp

lemma ceiling_rat_numeral: "\<lceil>numeral a / numeral b :: rat\<rceil> = - (- numeral a div numeral b)"
  using ceiling_divide_eq_div [of "numeral a" "numeral b", where ?'a = rat] by simp

lemmas double_eval =
  to_double_def ilog2_def round_half_even_def pow2_def Let_def floor_rat_numeral ceiling_rat_numeral

lemma double_300_281: "fdiv 300 281 = 4808113481178465 / 4503599627370496"
  by (simp add: fdiv_def double_eval)

lemma double_281_scaled: "fmul 281 (4808113481178465 / 4503599627370496) = 5277655813324799 / 17592186044416"
  by (simp add: fmul_def double_eval)

text \<open>
  C7 fails on the code for a 281\<times>281 image: \<open>300/281\<close> rounds to a double slightly
  below the quotient, the product \<open>281 * scale_factor\<close> rounds to
  \<open>299.99999999999994\<close>, and \<open>int()\<close> truncates it to 299.  The smaller dimension
  does not reach 300.
\<close>

theorem resize_281_gives_299: "resize_dims (281, 281) = Inr (299, 299)"
  by (simp add: resize_dims_def double_300_281 double_281_scaled floor_rat_numeral)

text \<open>With exact arithmetic the same step does reach 300 on the smaller side.\<close>

lemma resize_dims_exact_reaches_300:
  assumes "0 < h" "0 < w" "h < 300 \<or> w < 300"
  shows "min (fst (resize_dims_exact (h, w))) (snd (resize_dims_exact (h, w))) = 300"
proof -
  have hw: "(0::rat) < of_int h" "(0::rat) < of_int w" using assms by simp_all
  show ?thesis
  proof (cases "h \<le> w")
    case True
    then have le: "(300::rat) / of_int w \<le> 300 / of_int h"
      using hw by (simp add: frac_le)
    then have s: "max (300 / of_int h) (300 / of_int w) = (300::rat) / of_int h" by simp
    have a: "\<lfloor>of_int h * ((300::rat) / of_int h)\<rfloor> = 300" using hw by simp
    have "(300::rat) = of_int h * (300 / of_int h)" using hw by simp
    also have "\<dots> \<le> of_int w * (300 / of_int h)"
      using True hw by (intro mult_right_mono) simp_all
    finally have "(300::int) \<le> \<lfloor>of_int w * ((300::rat) / of_int h)\<rfloor>"
      by (simp add: le_floor_iff)
    then show ?thesis using assms(3) a by (simp add: resize_dims_exact_def s)
  next
    case False
    then have le: "(300::rat) / of_int h \<le> 300 / of_int w"
      using hw by (simp add: frac_le)
    then have s: "max (300 / of_int h) (300 / of_int w) = (300::rat) / of_int w" by simp
    have a: "\<lfloor>of_int w * ((300::rat) / of_int w)\<rfloor> = 300" using hw by simp
    have "(300::rat) = of_int w * (300 / of_int w)" using hw by simp
    also have "\<dots> \<le> of_int h * (300 / of_int w)"
      using False hw by (intro mult_right_mono) simp_all
    finally have "(300::int) \<le> \<lfloor>of_int h * ((300::rat) / of_int w)\<rfloor>"
      by (simp add: le_floor_iff)
    then show ?thesis using assms(3) a by (simp add: resize_dims_exact_def s)
  qed
qed

section \<open>The OCR selection rule\<close>

lemma ocr_loop_snoc: "ocr_loop (attempts @ [a]) = keep_best (ocr_loop attempts) a"
  by (simp add: ocr_loop_def)

lemma demo_attempt_first:
  "ocr_attempt demo_ocr demo_image ''--oem 3 --psm 6'' = Inr (py ''Invoice No'', 0)"
  by (simp add: ocr_attempt_def preprocess_image_def resize_dims_def demo_ocr_def no_ocr_def
      demo_image_def avg_confidence_def strip_def is_space_def py_def)

lemma double_90: "fdiv 90 1 = 90"
  by (simp add: fdiv_def double_eval)

lemma demo_attempt_other:
  "config \<noteq> ''--oem 3 --psm 6'' \<Longrightarrow> ocr_attempt demo_ocr demo_image config = Inr (py ''Inv'', 90)"
  by (simp add: ocr_attempt_def preprocess_image_def resize_dims_def demo_ocr_def no_ocr_def
      demo_image_def avg_confidence_def strip_def is_space_def py_def double_90)

text \<open>
  C2, as stated, fails: the first configuration does not seed the best attempt.  Its
  text is kept only if it passes the same test against the initial \<open>("", 0)\<close>; here it
  has no positive confidence, so the loop ends with the short text of the second
  configuration, where the specified rule would keep the long text of the first.
\<close>

theorem first_config_does_not_seed:
  "run_configs demo_ocr demo_image ocr_configs = (py ''Inv'', 90) \<and>
   spec_run demo_ocr demo_image ocr_configs = (py ''Invoice No'', 0)"
  by (simp add: run_configs_def spec_run_def candidates_of_def spec_select_def ocr_loop_def
      ocr_configs_def demo_attempt_first demo_attempt_other py_def)

text \<open>
  C2, amended.  The loop starts from the empty text with confidence 0 and tries the
  configurations in list order.  Every configuration, the first included, replaces the
  current best if and only if its average confidence is strictly greater and its text
  strictly longer than the current best's; a configuration that raises leaves the best
  unchanged.
\<close>

theorem ocr_selection_rule:
  "run_configs lib img [] = ([], 0) \<and>
   run_configs lib img (configs @ [config]) =
     (case ocr_attempt lib img config of
        Inl e \<Rightarrow> run_configs lib img configs
      | Inr (text, avg) \<Rightarrow>
          if avg > snd (run_configs lib img configs) \<and> length text > length (fst (run_configs lib img configs))
          then (text, avg) else run_configs lib img configs)"
proof -
  obtain bt bc where b: "run_configs lib img configs = (bt, bc)" by (cases "run_configs lib img configs")
  then have b': "ocr_loop (map (ocr_attempt lib img) configs) = (bt, bc)" by (simp add: run_configs_def)
  have "run_configs lib img (configs @ [config]) = keep_best (bt, bc) (ocr_attempt lib img config)"
    using b' by (simp add: run_configs_def ocr_loop_snoc)
  then show ?thesis
    by (simp add: b run_configs_def [of lib img "[]"] ocr_loop_def split: sum.splits prod.splits)
qed

text \<open>Along the loop neither the best confidence nor the length of the best text decreases.\<close>

lemma keep_best_mono:
  "snd b \<le> snd (keep_best b a) \<and> length (fst b) \<le> length (fst (keep_best b a))"
  by (cases b; cases a) auto

lemma ocr_loop_mono:
  "snd (ocr_loop xs) \<le> snd (ocr_loop (xs @ ys)) \<and> length (fst (ocr_loop xs)) \<le> length (fst (ocr_loop (xs @ ys)))"
proof (induction ys rule: rev_induct)
  case Nil
  then show ?case by simp
next
  case (snoc y ys)
  have "ocr_loop (xs @ ys @ [y]) = keep_best (ocr_loop (xs @ ys)) y"
    using ocr_loop_snoc [of "xs @ ys" y] by simp
  then show ?case
    using snoc keep_best_mono [of "ocr_loop (xs @ ys)" y] by (simp add: order_trans)
qed

section \<open>The plain-text extractor\<close>

lemma try_encodings_find:
  "try_encodings dec encodings bs =
     (case find (\<lambda>encoding. dec encoding bs \<noteq> None) encodings of
        Some encoding \<Rightarrow> txt_result (universal_newlines (the (dec encoding bs))) (Some encoding)
      | None \<Rightarrow> error_result (py ''Could not decode file''))"
  by (induction encodings) (auto simp: read_text_def split: option.splits)

lemma process_txt_latin1:
  assumes "py_decode ''utf-8'' bs = None"
  shows "process_txt (Inr bs) = Inr (txt_result (universal_newlines (map unat bs)) (Some ''latin-1''))"
  using assms by (simp add: process_txt_def process_txt_with_def read_text_def py_decode_def)

text \<open>
  C6.  The text extractor decodes as UTF-8 first; when that fails, the first of
  latin-1, cp1252, iso-8859-1 (in this order) that decodes the file gives the content,
  and its name is recorded as \<open>encoding_used\<close>; when none decodes, the result has empty
  content and the error \<open>Could not decode file\<close>.  This holds for any codec table.
  With Python's codecs, a file whose UTF-8 decoding fails is read as latin-1.
\<close>

theorem txt_decoding_order:
  "process_txt_with dec (Inr bs) = Inr
     (case read_text dec ''utf-8'' bs of
        Some content_str \<Rightarrow> txt_result content_str None
      | None \<Rightarrow>
          (case find (\<lambda>encoding. dec encoding bs \<noteq> None) [''latin-1'', ''cp1252'', ''iso-8859-1''] of
             Some encoding \<Rightarrow> txt_result (universal_newlines (the (dec encoding bs))) (Some encoding)
           | None \<Rightarrow> error_result (py ''Could not decode file'')))
   \<and> (py_decode ''utf-8'' bs = None \<longrightarrow>
        process_txt (Inr bs) = Inr (txt_result (universal_newlines (map unat bs)) (Some ''latin-1'')))"
proof
  show "process_txt_with dec (Inr bs) = Inr
     (case read_text dec ''utf-8'' bs of
        Some content_str \<Rightarrow> txt_result content_str None
      | None \<Rightarrow>
          (case find (\<lambda>encoding. dec encoding bs \<noteq> None) [''latin-1'', ''cp1252'', ''iso-8859-1''] of
             Some encoding \<Rightarrow> txt_result (universal_newlines (the (dec encoding bs))) (Some encoding)
           | None \<Rightarrow> error_result (py ''Could not decode file'')))"
    unfolding process_txt_with_def try_encodings_find by (simp split: option.splits)
  show "py_decode ''utf-8'' bs = None \<longrightarrow>
        process_txt (Inr bs) = Inr (txt_result (universal_newlines (map unat bs)) (Some ''latin-1''))"
    using process_txt_latin1 by blast
qed

lemma cafe_not_utf8: "py_decode ''utf-8'' cafe_latin1 = None"
  by (simp add: py_decode_def cafe_latin1_def is_cont_def)

theorem txt_decoding_order_witness:
  "py_decode ''utf-8'' cafe_latin1 = None \<and>
   process_txt (Inr cafe_latin1) =
     Inr (empty_result\<lparr>content := Some [99, 97, 102, 233],
            metadata := [(''encoding_used'', PStr (py ''latin-1'')), (''line_count'', PInt 1)]\<rparr>)"
proof -
  have "universal_newlines (map unat cafe_latin1) = [99, 97, 102, 233]"
    by (simp add: cafe_latin1_def)
  then show ?thesis
    using txt_decoding_order [of py_decode cafe_latin1] cafe_not_utf8
    by (simp add: txt_result_def line_count_def)
qed

text \<open>
  C9.  latin-1 decodes every byte sequence, so for a file that can be opened the text
  extractor never returns the \<open>Could not decode file\<close> result and never sets an error.
\<close>

theorem txt_never_encoding_error:
  "process_txt (Inr bs) \<noteq> Inr (error_result (py ''Could not decode file'')) \<and>
   (\<exists>r. process_txt (Inr bs) = Inr r \<and> error r = None \<and> content r \<noteq> None)"
  by (cases "py_decode ''utf-8'' bs")
     (simp_all add: process_txt_def process_txt_with_def read_text_def py_decode_def txt_result_def
       error_result_def empty_result_def)

section \<open>The extractors and the dispatcher\<close>

lemma error_result_ok: "result_ok (error_result msg)"
  by (simp add: result_ok_def error_result_def empty_result_def)

lemma txt_result_ok: "result_ok (txt_result s enc)"
  by (simp add: result_ok_def txt_result_def empty_result_def)

lemma try_encodings_ok: "result_ok (try_encodings dec encodings bs)"
  by (induction encodings) (simp_all add: error_result_ok txt_result_ok split: option.splits)

lemma process_txt_ok: "process_txt file = Inr r \<Longrightarrow> result_ok r"
  unfolding process_txt_def process_txt_with_def
  by (auto simp del: try_encodings.simps simp add: txt_result_ok try_encodings_ok
      split: sum.splits option.splits)

lemma process_docx_ok: "process_docx env path = Inr r \<Longrightarrow> result_ok r"
  by (auto simp: process_docx_def result_ok_def empty_result_def Let_def split: sum.splits)

lemma process_pdf_ok: "process_pdf env path = Inr r \<Longrightarrow> result_ok r"
  by (auto simp: process_pdf_def error_result_ok split: sum.splits)
     (simp add: result_ok_def empty_result_def)

lemma process_xlsx_ok: "process_xlsx env path = Inr r \<Longrightarrow> result_ok r"
  by (auto simp: process_xlsx_def result_ok_def empty_result_def Let_def split: sum.splits)

lemma process_image_ok: "process_image lib path = Inr r \<Longrightarrow> result_ok r"
  by (auto simp: process_image_def error_result_ok Let_def split: sum.splits option.splits prod.splits)
     (simp add: result_ok_def empty_result_def)

lemma process_eml_ok: "process_eml env path = Inr r \<Longrightarrow> result_ok r"
  by (auto simp: process_eml_def error_result_ok split: sum.splits)
     (simp add: result_ok_def empty_result_def)

lemma process_json_ok: "process_json env path = Inr r \<Longrightarrow> result_ok r"
  by (auto simp: process_json_def error_result_ok split: sum.splits)
     (simp add: result_ok_def empty_result_def)

lemma process_xml_ok: "process_xml env path = Inr r \<Longrightarrow> result_ok r"
  by (auto simp: process_xml_def error_result_ok split: sum.splits)
     (simp add: result_ok_def empty_result_def)

lemma process_csv_ok: "process_csv env path = Inr r \<Longrightarrow> result_ok r"
  by (auto simp: process_csv_def error_result_ok split: sum.splits)
     (simp add: result_ok_def empty_result_def)

lemma registered_extractor_ok:
  assumes "(ext, extractor) \<in> set supported_formats" "extractor env path = Inr r"
  shows "result_ok r"
proof -
  from assms(1) consider
      "extractor = process_docx" | "extractor = process_pdf" | "extractor = process_xlsx"
    | "extractor = (\<lambda>env. process_image (ocr env))"
    | "extractor = (\<lambda>env path. process_txt (open_file env path))"
    | "extractor = process_eml" | "extractor = process_json" | "extractor = process_xml"
    | "extractor = process_csv"
    unfolding supported_formats_def by auto
  then show ?thesis
    using assms(2)
    by cases
      (auto dest: process_docx_ok process_pdf_ok process_xlsx_ok process_image_ok process_txt_ok
        process_eml_ok process_json_ok process_xml_ok process_csv_ok)
qed

lemma process_file_registered:
  assumes "map_of supported_formats (file_ext_of env path) = Some extractor"
  shows "process_file env path =
     (case extractor env path of
        Inl e \<Rightarrow>
          Inr (empty_result\<lparr>content := Some [], error := Some (exn_msg e), file_path := Some path,
                 file_type := Some (file_ext_of env path)\<rparr>)
      | Inr res \<Rightarrow>
          Inr (res\<lparr>file_path := Some path, file_type := Some (file_ext_of env path),
                   file_name := Some (path_name env path)\<rparr>))"
  using assms by (simp add: process_file_def process_file_try_def split: sum.splits)

lemma process_file_result_ok: "\<exists>r. process_file env path = Inr r \<and> result_ok r"
proof (cases "map_of supported_formats (file_ext_of env path)")
  case None
  then show ?thesis
    by (simp add: process_file_def process_file_try_def result_ok_def empty_result_def)
next
  case (Some extractor)
  then have mem: "(file_ext_of env path, extractor) \<in> set supported_formats"
    by (rule map_of_SomeD)
  show ?thesis
  proof (cases "extractor env path")
    case (Inl e)
    then show ?thesis
      by (simp add: process_file_registered [OF Some] result_ok_def empty_result_def)
  next
    case (Inr res)
    then have "result_ok res" using registered_extractor_ok [OF mem] by simp
    then show ?thesis
      by (simp add: process_file_registered [OF Some] Inr result_ok_def)
  qed
qed

text \<open>
  C1.  For a file whose lower-cased extension is registered, \<open>process_file\<close> returns a
  result (no exception reaches the caller) whose \<open>content\<close> is present; when the
  extractor raises, the result has empty content and carries the exception's message as
  \<open>error\<close>.
\<close>

theorem process_file_never_raises:
  assumes "map_of supported_formats (file_ext_of env path) = Some extractor"
  shows "\<exists>r. process_file env path = Inr r \<and> content r \<noteq> None \<and>
           (\<forall>e. extractor env path = Inl e \<longrightarrow> content r = Some [] \<and> error r = Some (exn_msg e))"
proof -
  obtain r where r: "process_file env path = Inr r" "result_ok r"
    using process_file_result_ok by blast
  have "content r = Some [] \<and> error r = Some (exn_msg e)" if "extractor env path = Inl e" for e
    using r(1) that by (simp add: process_file_registered [OF assms] empty_result_def) auto
  with r show ?thesis by (auto simp: result_ok_def)
qed

lemma ext_report_docx: "file_ext_of base_env (py ''Report.DOCX'') = py ''.docx''"
  by (simp add: file_ext_of_def base_env_def posix_suffix_def posix_name_def ascii_lower_def py_def)

theorem process_file_never_raises_witness:
  "map_of supported_formats (file_ext_of base_env (py ''Report.DOCX'')) = Some process_docx \<and>
   (\<exists>r. process_file base_env (py ''Report.DOCX'') = Inr r \<and> content r = Some [] \<and>
        error r = Some (py ''No such file or directory''))"
proof -
  have "map_of supported_formats (py ''.docx'') = Some process_docx"
    by (simp add: supported_formats_def py_def)
  then have reg: "map_of supported_formats (file_ext_of base_env (py ''Report.DOCX'')) = Some process_docx"
    by (simp only: ext_report_docx)
  have raises: "process_docx base_env (py ''Report.DOCX'') = Inl not_found"
    by (simp add: process_docx_def base_env_def)
  show ?thesis
    using process_file_never_raises [OF reg] raises reg by (auto simp: not_found_def)
qed

text \<open>
  C5.  For a file whose lower-cased extension has no registered extractor,
  \<open>process_file\<close> returns (it does not raise) the result with empty content and the
  error \<open>Unsupported file format: <ext>\<close>.
\<close>

theorem unsupported_format_result:
  assumes "map_of supported_formats (file_ext_of env path) = None"
  shows "process_file env path =
     Inr (empty_result\<lparr>content := Some [],
            error := Some (py ''Unsupported file format: '' @ file_ext_of env path),
            file_path := Some path, file_type := Some (file_ext_of env path)\<rparr>)"
  using assms by (simp add: process_file_def process_file_try_def)

lemma ext_data_bin: "file_ext_of base_env (py ''upload/data.bin'') = py ''.bin''"
  by (simp add: file_ext_of_def base_env_def posix_suffix_def posix_name_def ascii_lower_def py_def)

theorem unsupported_format_result_witness:
  "map_of supported_formats (file_ext_of base_env (py ''upload/data.bin'')) = None \<and>
   process_file base_env (py ''upload/data.bin'') =
     Inr (empty_result\<lparr>content := Some [], error := Some (py ''Unsupported file format: .bin''),
            file_path := Some (py ''upload/data.bin''), file_type := Some (py ''.bin'')\<rparr>)"
proof -
  have "map_of supported_formats (py ''.bin'') = None"
    by (simp add: supported_formats_def py_def)
  then have none: "map_of supported_formats (file_ext_of base_env (py ''upload/data.bin'')) = None"
    by (simp only: ext_data_bin)
  have msg: "py ''Unsupported file format: '' @ py ''.bin'' = py ''Unsupported file format: .bin''"
    by (simp add: py_def)
  show ?thesis
    using unsupported_format_result [OF none] none by (simp only: ext_data_bin msg)
qed

lemma failing_attempts:
  "ocr_attempt (ocr failing_ocr_env) (Image 100 200 0) config =
     Inl (Exn ''TesseractNotFoundError'' (py ''tesseract is not installed''))"
  by (simp add: ocr_attempt_def preprocess_image_def failing_ocr_env_def base_env_def no_ocr_def
      resize_dims_def fdiv_def fmul_def double_eval split: sum.splits)

text \<open>
  C4, as stated, fails in one direction: a result without meaningful content need not
  carry an error.  An image that loads while every OCR configuration fails gives empty
  content and no \<open>error\<close> key.
\<close>

theorem empty_content_without_error:
  "process_file failing_ocr_env (py ''scan.png'') =
     Inr (empty_result
       \<lparr>content := Some [], file_path := Some (py ''scan.png''), file_type := Some (py ''.png''),
        file_name := Some (py ''scan.png''),
        metadata := [(''image_size'', PShape 100 200), (''ocr_confidence'', PFloat 0),
                     (''ocr_method'', PStr (py ''multi-config''))]\<rparr>)
   \<and> error empty_result = None"
proof -
  have ext: "file_ext_of failing_ocr_env (py ''scan.png'') = py ''.png''"
    by (simp add: file_ext_of_def failing_ocr_env_def base_env_def posix_suffix_def posix_name_def
        ascii_lower_def py_def)
  have reg: "map_of supported_formats (py ''.png'') = Some (\<lambda>env. process_image (ocr env))"
    by (simp add: supported_formats_def py_def)
  have name: "path_name failing_ocr_env (py ''scan.png'') = py ''scan.png''"
    by (simp add: failing_ocr_env_def base_env_def posix_name_def py_def)
  have imread: "cv2_imread (ocr failing_ocr_env) (py ''scan.png'') = Inr (Some (Image 100 200 0))"
    by (simp add: failing_ocr_env_def)
  have loop: "run_configs (ocr failing_ocr_env) (Image 100 200 0) ocr_configs = ([], 0)"
    by (simp add: run_configs_def ocr_loop_def ocr_configs_def failing_attempts)
  have img: "process_image (ocr failing_ocr_env) (py ''scan.png'') =
     Inr (empty_result
       \<lparr>content := Some [],
        metadata := [(''image_size'', PShape 100 200), (''ocr_confidence'', PFloat 0),
                     (''ocr_method'', PStr (py ''multi-config''))]\<rparr>)"
    by (simp add: process_image_def imread loop clean_ocr_text_def clean_with_def)
  show ?thesis
    using reg by (simp add: process_file_registered ext img name empty_result_def)
qed

text \<open>
  C4, amended.  Every result of \<open>process_file\<close> has \<open>content\<close> present, on every path;
  a result that carries an \<open>error\<close> has empty content.  (The converse is not promised:
  empty content may come without an error.)
\<close>

theorem error_implies_empty_content:
  "\<exists>r. process_file env path = Inr r \<and> content r \<noteq> None \<and> (error r \<noteq> None \<longrightarrow> content r = Some [])"
  using process_file_result_ok [of env path] by (simp add: result_ok_def)

theorem error_implies_empty_content_witness:
  "\<exists>r. process_file base_env (py ''statement.pdf'') = Inr r \<and> error r \<noteq> None \<and> content r = Some []"
proof -
  have ext: "file_ext_of base_env (py ''statement.pdf'') = py ''.pdf''"
    by (simp add: file_ext_of_def base_env_def posix_suffix_def posix_name_def ascii_lower_def py_def)
  have reg: "map_of supported_formats (py ''.pdf'') = Some process_pdf"
    by (simp add: supported_formats_def py_def)
  have "process_pdf base_env (py ''statement.pdf'') = Inr (error_result (py ''No such file or directory''))"
    by (simp add: process_pdf_def base_env_def not_found_def)
  then have "\<exists>r. process_file base_env (py ''statement.pdf'') = Inr r \<and> error r \<noteq> None"
    using reg by (simp add: process_file_registered ext error_result_def empty_result_def)
  then show ?thesis
    using error_implies_empty_content [of base_env "py ''statement.pdf''"] by auto
qed

section \<open>The content aggregator\<close>

lemma combine_step_blocks:
  "combine_step acc c = acc @ content_block c @ tables_block c @ image_text_block c"
  by (simp add: combine_step_def content_block_def tables_block_def image_text_block_def)

lemma fold_combine_step:
  "fold (\<lambda>c combined_text. combine_step combined_text c) content_list acc =
     acc @ concat (map (\<lambda>c. content_block c @ tables_block c @ image_text_block c) content_list)"
  by (induction content_list arbitrary: acc) (simp_all add: combine_step_blocks)

lemma content_blocks_filter:
  "concat (map content_block content_list) =
     map (\<lambda>c. file_info c @ the (content c)) (filter (\<lambda>c. has_text (content c)) content_list)"
  by (induction content_list) (simp_all add: content_block_def)

text \<open>
  C3, as stated, fails: an entry with empty content still contributes its Tables block.
  A document that holds only a table is extracted with empty content and two table
  rows, and the corpus of that single entry is the Tables block.
\<close>

theorem empty_content_contributes_tables:
  "process_file table_only_env (py ''rates.docx'') = Inr table_only_result \<and>
   content table_only_result = Some [] \<and>
   combine_extracted_content [table_only_result] = [10] @ py ''Tables:'' @ [10] @ py ''A | B'' @ [10] @ py ''C | D''"
proof -
  have ext: "file_ext_of table_only_env (py ''rates.docx'') = py ''.docx''"
    by (simp add: file_ext_of_def table_only_env_def base_env_def posix_suffix_def posix_name_def
        ascii_lower_def py_def)
  have reg: "map_of supported_formats (py ''.docx'') = Some process_docx"
    by (simp add: supported_formats_def py_def)
  have name: "path_name table_only_env (py ''rates.docx'') = py ''rates.docx''"
    by (simp add: table_only_env_def base_env_def posix_name_def py_def)
  have rows: "table_rows [[py ''A'', py ''B''], [py ''C'', py ''D'']] = [py ''A | B'', py ''C | D'']"
    by (simp add: table_rows_def strip_def is_space_def py_def)
  have docx: "process_docx table_only_env (py ''rates.docx'') =
     Inr (empty_result
       \<lparr>content := Some [], tables := Some [py ''A | B'', py ''C | D''], image_text := Some [],
        metadata := [(''total_paragraphs'', PInt 0), (''total_tables'', PInt 1)]\<rparr>)"
    by (simp add: process_docx_def table_only_env_def base_env_def table_only_document_def rows)
  have 1: "process_file table_only_env (py ''rates.docx'') = Inr table_only_result"
    using reg by (simp add: process_file_registered ext docx name table_only_result_def empty_result_def)
  have 2: "content table_only_result = Some []"
    by (simp add: table_only_result_def)
  have 3: "combine_extracted_content [table_only_result] =
      [10] @ py ''Tables:'' @ [10] @ py ''A | B'' @ [10] @ py ''C | D''"
    by (simp add: combine_extracted_content_def combined_text_of_def combine_step_def
        table_only_result_def has_text_def has_rows_def)
  from 1 2 3 show ?thesis by simp
qed

text \<open>
  C3, amended.  The corpus is the blank-line join, in input order, of the blocks of the
  entries.  An entry contributes one provenance block
  \<open>"\n--- Content from <name> ---\n" + content\<close> exactly when its content is non-empty,
  so the provenance blocks are those of the entries with non-empty content, in input
  order; independently of that it contributes a Tables block when its \<open>tables\<close> are
  non-empty and an Image Text block when its \<open>image_text\<close> is non-empty.
\<close>

theorem corpus_blocks:
  "combine_extracted_content content_list =
     str_join [10, 10] (concat (map (\<lambda>c. content_block c @ tables_block c @ image_text_block c) content_list))
   \<and> concat (map content_block content_list) =
     map (\<lambda>c. [10] @ py ''--- Content from '' @ (case file_name c of None \<Rightarrow> py ''Unknown'' | Some n \<Rightarrow> n)
                @ py '' ---'' @ [10] @ the (content c))
       (filter (\<lambda>c. content c \<noteq> None \<and> content c \<noteq> Some []) content_list)"
proof
  show "combine_extracted_content content_list =
     str_join [10, 10] (concat (map (\<lambda>c. content_block c @ tables_block c @ image_text_block c) content_list))"
    by (simp add: combine_extracted_content_def combined_text_of_def fold_combine_step)
  have f: "filter (\<lambda>c. has_text (content c)) content_list =
      filter (\<lambda>c. content c \<noteq> None \<and> content c \<noteq> Some []) content_list"
    by (rule filter_cong) (auto simp: has_text_def split: option.splits)
  show "concat (map content_block content_list) =
     map (\<lambda>c. [10] @ py ''--- Content from '' @ (case file_name c of None \<Rightarrow> py ''Unknown'' | Some n \<Rightarrow> n)
                @ py '' ---'' @ [10] @ the (content c))
       (filter (\<lambda>c. content c \<noteq> None \<and> content c \<noteq> Some []) content_list)"
    unfolding content_blocks_filter f by (simp add: file_info_def)
qed

end
